theory Spec2Isabelle
  imports Main "HOL-Library.Word"
begin

unbundle bit_operations_syntax

section \<open>Data model of the firmware\<close>

text \<open>
  The target is an 8-bit AVR: \<open>uint8_t\<close> is an 8-bit word, \<open>uint16_t\<close> and
  \<open>int\<close> are 16 bits wide. Addition on words wraps around, as the C arithmetic on
  the unsigned types does.
\<close>

type_synonym u8 = "8 word"
type_synonym u16 = "16 word"

definition WAVETABLE_SINE :: u8 where "WAVETABLE_SINE = 0"
definition WAVETABLE_TRIANGLE :: u8 where "WAVETABLE_TRIANGLE = 1"
definition WAVETABLE_SAW :: u8 where "WAVETABLE_SAW = 2"
definition WAVETABLE_SQUARE :: u8 where "WAVETABLE_SQUARE = 3"
definition WAVETABLE_PULSE :: u8 where "WAVETABLE_PULSE = 4"
definition WAVETABLE_NOISE :: u8 where "WAVETABLE_NOISE = 5"

definition BUFF_LENGTH :: nat where "BUFF_LENGTH = 4"
definition BUFF_SHIFT :: nat where "BUFF_SHIFT = 2"

lemmas wavetable_ids =
  WAVETABLE_SINE_def WAVETABLE_TRIANGLE_def WAVETABLE_SAW_def
  WAVETABLE_SQUARE_def WAVETABLE_PULSE_def WAVETABLE_NOISE_def

text \<open>
  The global variables of the sketch, together with the PWM duty register \<open>OCR1A\<close>
  that carries the output sample. The timer configuration registers written once by
  \<open>audioOn\<close> are not part of the model. The global \<open>acc\<close> is called \<open>acc_sum\<close>
  here.
\<close>

record vco_state =
  syncPhaseAcc :: u16
  syncPhaseInc :: u16
  baseFreq :: u16
  syncOffset :: u16
  finetune :: u16
  current_wavetable :: u8
  pitch_offset :: u8
  phase_offset :: u8
  range_high :: u8
  acc_sum :: u16
  a1_level :: u16
  buffered_vals :: "u16 list"
  buff_step :: u16
  OCR1A :: u8

text \<open>
  Modelled from the spec: the header \<open>wavetables.h\<close> is not among the sources. It
  declares the four tables in program memory, which the spec gives as 256 entries of
  8 bits each, so a table is a function from the 8-bit index to the 8-bit entry.
\<close>

record wavetable_bank =
  sine :: "u8 \<Rightarrow> u8"
  triangle :: "u8 \<Rightarrow> u8"
  pulse :: "u8 \<Rightarrow> u8"
  noise :: "u8 \<Rightarrow> u8"

text \<open>
  Modelled from the spec: \<open>mapFreq\<close> and \<open>mapOsc\<close> are declared in the missing
  header too. They are parameters of the control loop; each stands for the value of the
  call after its conversion to the \<open>uint16_t\<close> variable that receives it.
\<close>

record mappers =
  mapFreq :: "u16 \<Rightarrow> u16"
  mapOsc :: "u16 \<Rightarrow> u16"

text \<open>
  What one pass of \<open>loop\<close> reads from the pins: three results of \<open>analogRead\<close>
  (an \<open>int\<close>, 16 bits) and the level of digital pin 0.
\<close>

record inputs =
  cv_input :: u16
  wave_input :: u16
  op_input :: u16
  pin0_high :: bool

section \<open>Startup\<close>

text \<open>Objects of static storage duration start as zero.\<close>

definition zero_init :: vco_state where
  "zero_init =
    \<lparr>syncPhaseAcc = 0, syncPhaseInc = 0, baseFreq = 0, syncOffset = 0, finetune = 0,
     current_wavetable = 0, pitch_offset = 0, phase_offset = 0, range_high = 0,
     acc_sum = 0, a1_level = 0, buffered_vals = replicate BUFF_LENGTH 0, buff_step = 0,
     OCR1A = 0\<rparr>"

text \<open>
  \<open>audioOn\<close>: the duty register is set to 128, the accumulator and the buffer
  position to zero. \<open>memset\<close> is given \<open>BUFF_LENGTH\<close> bytes, which is the first
  \<open>BUFF_LENGTH div 2\<close> entries of the 16-bit buffer.
\<close>

definition audioOn :: "vco_state \<Rightarrow> vco_state" where
  "audioOn s =
    s\<lparr>OCR1A := 128,
      syncPhaseAcc := 0,
      buff_step := 0,
      buffered_vals :=
        replicate (BUFF_LENGTH div 2) 0 @ drop (BUFF_LENGTH div 2) (buffered_vals s)\<rparr>"

definition setup_vco :: "vco_state \<Rightarrow> vco_state" where
  "setup_vco s = audioOn s"

definition startup :: vco_state where
  "startup = setup_vco zero_init"

section \<open>The sample interrupt\<close>

text \<open>
  \<open>ISR(TIMER0_COMPA_vect)\<close>. The shifts act on the 16-bit unsigned increment, the
  sum wraps at 16 bits, \<open>step\<close> is the high byte of the new accumulator. In the
  default branch the first read is overwritten; the product of the second read and
  two is cut to 8 bits by the assignment to \<open>val\<close>.
\<close>

definition ISR :: "wavetable_bank \<Rightarrow> vco_state \<Rightarrow> vco_state" where
  "ISR b s =
    (let s1 = s\<lparr>syncPhaseAcc := syncPhaseAcc s +
                 (if range_high s = 0 then drop_bit 1 (syncPhaseInc s)
                  else drop_bit 4 (syncPhaseInc s))\<rparr>;
         step = (ucast (drop_bit 8 (syncPhaseAcc s1)) :: u8);
         phased_step = step + phase_offset s1;
         val =
           (if current_wavetable s1 = WAVETABLE_SINE then sine b step
            else if current_wavetable s1 = WAVETABLE_TRIANGLE then triangle b step
            else if current_wavetable s1 = WAVETABLE_SAW then step
            else if current_wavetable s1 = WAVETABLE_SQUARE then
              (if step < 128 then 0x00 else 0xff)
            else if current_wavetable s1 = WAVETABLE_PULSE then pulse b step
            else (let val0 = noise b step in push_bit 1 (noise b phased_step)))
     in s1\<lparr>OCR1A := val\<rparr>)"

text \<open>The top eight bits of an accumulator value: the table index of the interrupt.\<close>

definition step_of :: "u16 \<Rightarrow> u8" where
  "step_of a = ucast (drop_bit 8 a)"

section \<open>The control loop\<close>

text \<open>Line 103: the base increment from the control voltage.\<close>

definition read_cv :: "mappers \<Rightarrow> u16 \<Rightarrow> vco_state \<Rightarrow> vco_state" where
  "read_cv m r s = s\<lparr>baseFreq := mapFreq m r\<rparr>"

text \<open>The \<open>for\<close> loop of line 120, from index \<open>i\<close> on.\<close>

function sum_buffer :: "nat \<Rightarrow> vco_state \<Rightarrow> vco_state" where
  "sum_buffer i s =
    (if i < BUFF_LENGTH
     then sum_buffer (Suc i) (s\<lparr>acc_sum := acc_sum s + buffered_vals s ! i\<rparr>)
     else s)"
  by pat_completeness auto
termination
  by (relation "measure (\<lambda>(i, s). BUFF_LENGTH - i)") auto

declare sum_buffer.simps [simp del]

text \<open>
  Line 117. A store at a position outside the four-entry buffer is undefined
  behaviour in C: the model returns \<open>None\<close> there.
\<close>

definition store_wave :: "mappers \<Rightarrow> u16 \<Rightarrow> vco_state \<Rightarrow> vco_state option" where
  "store_wave m r s =
    (if unat (buff_step s) < BUFF_LENGTH then
       Some (s\<lparr>buffered_vals := (buffered_vals s)[unat (buff_step s) := mapOsc m r],
               buff_step := buff_step s + 1\<rparr>)
     else None)"

text \<open>Lines 118 to 124.\<close>

definition average_buffer :: "vco_state \<Rightarrow> vco_state" where
  "average_buffer s =
    (if buff_step s = of_nat BUFF_LENGTH then
       (let s2 = s\<lparr>acc_sum := 0\<rparr>;
            s3 = sum_buffer 0 s2;
            s4 = s3\<lparr>current_wavetable :=
                       ucast (drop_bit BUFF_SHIFT (acc_sum s3) AND 0xff)\<rparr>;
            s5 = s4\<lparr>acc_sum := 0\<rparr>
        in s5\<lparr>buff_step := 0\<rparr>)
     else s)"

definition buffer_wave :: "mappers \<Rightarrow> u16 \<Rightarrow> vco_state \<Rightarrow> vco_state option" where
  "buffer_wave m r s =
    (case store_wave m r s of None \<Rightarrow> None | Some s1 \<Rightarrow> Some (average_buffer s1))"

text \<open>
  Line 127. The shift acts on a signed \<open>int\<close>; the sum is converted to
  \<open>uint16_t\<close> by the assignment, that is, taken modulo \<open>2 ^ 16\<close>.
\<close>

definition read_finetune :: "u16 \<Rightarrow> vco_state \<Rightarrow> vco_state" where
  "read_finetune r s = s\<lparr>finetune := - 64 + signed_drop_bit 3 r\<rparr>"

text \<open>Line 130.\<close>

definition set_phase_inc :: "vco_state \<Rightarrow> vco_state" where
  "set_phase_inc s = s\<lparr>syncPhaseInc := baseFreq s + finetune s\<rparr>"

text \<open>Line 133.\<close>

definition read_range :: "bool \<Rightarrow> vco_state \<Rightarrow> vco_state" where
  "read_range high s = s\<lparr>range_high := (if high then 1 else 0)\<rparr>"

text \<open>One pass of \<open>loop\<close>: the five statements in order.\<close>

definition loop :: "mappers \<Rightarrow> inputs \<Rightarrow> vco_state \<Rightarrow> vco_state option" where
  "loop m i s =
    (case buffer_wave m (wave_input i) (read_cv m (cv_input i) s) of
       None \<Rightarrow> None
     | Some s2 \<Rightarrow>
         Some (read_range (pin0_high i) (set_phase_inc (read_finetune (op_input i) s2))))"

text \<open>The Arduino core calls \<open>loop\<close> again and again: one pass per element of the list.\<close>

fun run_loop :: "mappers \<Rightarrow> inputs list \<Rightarrow> vco_state \<Rightarrow> vco_state option" where
  "run_loop m [] s = Some s"
| "run_loop m (i # is) s =
    (case loop m i s of None \<Rightarrow> None | Some s' \<Rightarrow> run_loop m is s')"

section \<open>The running system\<close>

text \<open>
  The timer interrupt can fire between the statements of \<open>loop\<close>. The set of
  states below starts at \<open>startup\<close> and is closed under the interrupt and under
  each of the steps of \<open>loop\<close> defined above, taken alone and with any input: it
  contains the state between any two of these steps, whatever the interleaving.
\<close>

inductive reachable :: "wavetable_bank \<Rightarrow> mappers \<Rightarrow> vco_state \<Rightarrow> bool"
  for b :: wavetable_bank and m :: mappers where
  start: "reachable b m startup"
| tick: "reachable b m s \<Longrightarrow> reachable b m (ISR b s)"
| cv: "reachable b m s \<Longrightarrow> reachable b m (read_cv m r s)"
| store: "reachable b m s \<Longrightarrow> store_wave m r s = Some s' \<Longrightarrow> reachable b m s'"
| average: "reachable b m s \<Longrightarrow> reachable b m (average_buffer s)"
| fine: "reachable b m s \<Longrightarrow> reachable b m (read_finetune r s)"
| inc: "reachable b m s \<Longrightarrow> reachable b m (set_phase_inc s)"
| range: "reachable b m s \<Longrightarrow> reachable b m (read_range h s)"

text \<open>The change of the accumulator over one interrupt.\<close>

definition phase_advance :: "wavetable_bank \<Rightarrow> vco_state \<Rightarrow> u16" where
  "phase_advance b s = syncPhaseAcc (ISR b s) - syncPhaseAcc s"

text \<open>
  Concrete parameters for evaluating the program: tables that hold their own index,
  and mappers that hand the reading through.
\<close>

definition ramp_bank :: wavetable_bank where
  "ramp_bank = \<lparr>sine = (\<lambda>i. i), triangle = (\<lambda>i. i), pulse = (\<lambda>i. i), noise = (\<lambda>i. i)\<rparr>"

definition plain_mappers :: mappers where
  "plain_mappers = \<lparr>mapFreq = (\<lambda>r. r), mapOsc = (\<lambda>r. r)\<rparr>"

text \<open>A pass that reads \<open>w\<close> from the selector and the midpoint from the fine-tune pot.\<close>

definition pass_with :: "u16 \<Rightarrow> inputs" where
  "pass_with w = \<lparr>cv_input = 0, wave_input = w, op_input = 512, pin0_high = False\<rparr>"

lemmas startup_defs = startup_def setup_vco_def audioOn_def zero_init_def BUFF_LENGTH_def

section \<open>Phase accumulation\<close>

lemma ISR_syncPhaseAcc:
  "syncPhaseAcc (ISR b s) =
     syncPhaseAcc s +
       (if range_high s = 0 then drop_bit 1 (syncPhaseInc s) else drop_bit 4 (syncPhaseInc s))"
  by (simp add: ISR_def Let_def)

lemma ISR_frame:
  "syncPhaseInc (ISR b s) = syncPhaseInc s"
  "range_high (ISR b s) = range_high s"
  "current_wavetable (ISR b s) = current_wavetable s"
  "phase_offset (ISR b s) = phase_offset s"
  by (simp_all add: ISR_def Let_def)

lemma ISR_funpow_frame:
  "syncPhaseInc ((ISR b ^^ n) s) = syncPhaseInc s \<and>
   range_high ((ISR b ^^ n) s) = range_high s \<and>
   current_wavetable ((ISR b ^^ n) s) = current_wavetable s \<and>
   phase_offset ((ISR b ^^ n) s) = phase_offset s"
  by (induction n) (simp_all add: ISR_frame)

lemma ISR_funpow_acc:
  "syncPhaseAcc ((ISR b ^^ n) s) =
     syncPhaseAcc s + of_nat n *
       (if range_high s = 0 then drop_bit 1 (syncPhaseInc s) else drop_bit 4 (syncPhaseInc s))"
  by (induction n) (simp_all add: ISR_syncPhaseAcc ISR_funpow_frame algebra_simps)

lemma unat_of_nat_mult_u16:
  "unat (of_nat n * w :: u16) = (n * unat w) mod 65536"
  by (simp add: unat_word_ariths unat_of_nat mod_mult_left_eq)

text \<open>
  C1. From a zero accumulator, \<open>N\<close> interrupts with no pass of the control loop in
  between leave the accumulator at \<open>(N * (I >> 1)) mod 65536\<close> in the audio range
  (\<open>range_high\<close> zero) and at \<open>(N * (I >> 4)) mod 65536\<close> in the LFO range
  (\<open>range_high\<close> not zero), where \<open>I\<close> is the published increment.
\<close>

theorem phase_after_ticks:
  assumes "syncPhaseAcc s = 0" and "syncPhaseInc s = I"
  shows "unat (syncPhaseAcc ((ISR b ^^ N) s)) =
           (if range_high s = 0 then (N * unat (drop_bit 1 I)) mod 65536
            else (N * unat (drop_bit 4 I)) mod 65536)"
  using assms by (simp add: ISR_funpow_acc unat_of_nat_mult_u16)

theorem phase_after_ticks_witness:
  "syncPhaseAcc (startup\<lparr>syncPhaseInc := 1000\<rparr>) = 0 \<and>
   syncPhaseInc (startup\<lparr>syncPhaseInc := 1000\<rparr>) = 1000 \<and>
   unat (syncPhaseAcc ((ISR ramp_bank ^^ 200) (startup\<lparr>syncPhaseInc := 1000\<rparr>))) = 34464 \<and>
   unat (syncPhaseAcc ((ISR ramp_bank ^^ 200)
           (startup\<lparr>syncPhaseInc := 1000, range_high := 1\<rparr>))) = 12400"
  using phase_after_ticks [where s = "startup\<lparr>syncPhaseInc := 1000\<rparr>" and I = 1000
      and b = ramp_bank and N = 200]
    phase_after_ticks [where s = "startup\<lparr>syncPhaseInc := 1000, range_high := 1\<rparr>"
      and I = 1000 and b = ramp_bank and N = 200]
  by (simp add: startup_defs)

section \<open>The two ranges\<close>

lemma phase_advance_eq:
  "phase_advance b s =
     (if range_high s = 0 then drop_bit 1 (syncPhaseInc s) else drop_bit 4 (syncPhaseInc s))"
  by (simp add: phase_advance_def ISR_syncPhaseAcc)

lemma unat_phase_advance:
  "unat (phase_advance b s) =
     (if range_high s = 0 then unat (syncPhaseInc s) div 2 else unat (syncPhaseInc s) div 16)"
  by (simp add: phase_advance_eq drop_bit_eq_div unat_div)

text \<open>
  C2, as stated, fails: with the increment 2 the audio range advances the accumulator
  by 1 each tick and the LFO range by 0, which is not one eighth of 1.
\<close>

theorem lfo_eighth_counterexample:
  "8 * unat (phase_advance ramp_bank (startup\<lparr>syncPhaseInc := 2, range_high := 1\<rparr>)) \<noteq>
     unat (phase_advance ramp_bank (startup\<lparr>syncPhaseInc := 2, range_high := 0\<rparr>))"
  by (simp add: unat_phase_advance startup_defs)

text \<open>
  C2, amended. For the same increment, the advance per tick in the LFO range is the
  advance per tick in the audio range divided by 8 and rounded down. It is exactly one
  eighth precisely when the audio advance is a multiple of 8, that is, when bits 1 to 3
  of the increment are zero.
\<close>

theorem lfo_advance_eighth:
  assumes "syncPhaseInc sl = syncPhaseInc sa"
    and "range_high sa = 0" and "range_high sl \<noteq> 0"
  shows "unat (phase_advance b sl) = unat (phase_advance b sa) div 8 \<and>
         (8 * unat (phase_advance b sl) = unat (phase_advance b sa)
            \<longleftrightarrow> unat (syncPhaseInc sa) mod 16 < 2)"
proof -
  have adv: "unat (phase_advance b sl) = unat (syncPhaseInc sa) div 16"
    "unat (phase_advance b sa) = unat (syncPhaseInc sa) div 2"
    using assms by (simp_all add: unat_phase_advance)
  have "(8 * (n div 16) = n div 2) = (n mod 16 < 2)" for n :: nat
    by presburger
  moreover have "n div 16 = n div 2 div 8" for n :: nat
    by presburger
  ultimately show ?thesis
    unfolding adv by blast
qed

theorem lfo_advance_eighth_witness:
  "unat (phase_advance ramp_bank (startup\<lparr>syncPhaseInc := 1000, range_high := 1\<rparr>)) = 62 \<and>
   unat (phase_advance ramp_bank (startup\<lparr>syncPhaseInc := 1000\<rparr>)) = 500 \<and>
   8 * unat (phase_advance ramp_bank (startup\<lparr>syncPhaseInc := 1000, range_high := 1\<rparr>)) \<noteq>
     unat (phase_advance ramp_bank (startup\<lparr>syncPhaseInc := 1000\<rparr>))"
  using lfo_advance_eighth [where sl = "startup\<lparr>syncPhaseInc := 1000, range_high := 1\<rparr>"
      and sa = "startup\<lparr>syncPhaseInc := 1000\<rparr>" and b = ramp_bank]
  by (simp add: unat_phase_advance startup_defs)

section \<open>The sample of each waveform\<close>

lemma ISR_OCR1A:
  "OCR1A (ISR b s) =
    (let step = step_of (syncPhaseAcc (ISR b s)) in
     if current_wavetable s = WAVETABLE_SINE then sine b step
     else if current_wavetable s = WAVETABLE_TRIANGLE then triangle b step
     else if current_wavetable s = WAVETABLE_SAW then step
     else if current_wavetable s = WAVETABLE_SQUARE then (if step < 128 then 0 else 255)
     else if current_wavetable s = WAVETABLE_PULSE then pulse b step
     else push_bit 1 (noise b (step + phase_offset s)))"
  by (simp add: ISR_def Let_def step_of_def)

text \<open>
  C3. For every value of \<open>current_wavetable\<close> other than the five of sine, triangle,
  saw, square and pulse, the interrupt writes
  \<open>(noise[(step + phase_offset) mod 256] * 2) mod 256\<close> to the output, \<open>step\<close>
  being the high byte of the new accumulator. The interrupt is a total function: there
  is no value of \<open>current_wavetable\<close> for which it fails.
\<close>

theorem noise_fallback:
  assumes "current_wavetable s \<notin>
    {WAVETABLE_SINE, WAVETABLE_TRIANGLE, WAVETABLE_SAW, WAVETABLE_SQUARE, WAVETABLE_PULSE}"
  shows "unat (OCR1A (ISR b s)) =
    (unat (noise b (of_nat ((unat (step_of (syncPhaseAcc (ISR b s))) + unat (phase_offset s))
        mod 256))) * 2) mod 256"
proof -
  have idx: "(of_nat ((unat x + unat y) mod 256) :: u8) = x + y" for x y :: u8
    by (simp add: word_unat_eq_iff unat_word_ariths unat_of_nat)
  have "OCR1A (ISR b s) =
      push_bit 1 (noise b (step_of (syncPhaseAcc (ISR b s)) + phase_offset s))"
    using assms by (simp add: ISR_OCR1A Let_def)
  then show ?thesis
    by (simp add: idx unat_word_ariths push_bit_eq_mult mult.commute)
qed

theorem noise_fallback_witness:
  "(200 :: u8) \<notin>
     {WAVETABLE_SINE, WAVETABLE_TRIANGLE, WAVETABLE_SAW, WAVETABLE_SQUARE, WAVETABLE_PULSE} \<and>
   unat (OCR1A (ISR ramp_bank
     (startup\<lparr>current_wavetable := 200, syncPhaseInc := 65280, phase_offset := 3\<rparr>))) = 4"
  using noise_fallback [where b = ramp_bank and
      s = "startup\<lparr>current_wavetable := 200, syncPhaseInc := 65280, phase_offset := 3\<rparr>"]
  by (simp add: wavetable_ids ISR_syncPhaseAcc step_of_def ramp_bank_def startup_defs)

text \<open>
  C5. When \<open>current_wavetable\<close> selects the square, the interrupt writes 0 if
  \<open>step\<close>, the high byte of the new accumulator, is in 0..127 and 255 if it is in
  128..255; no other value is written.
\<close>

theorem square_levels:
  assumes "current_wavetable s = WAVETABLE_SQUARE"
  shows "OCR1A (ISR b s) =
           (if unat (step_of (syncPhaseAcc (ISR b s))) \<le> 127 then 0 else 255) \<and>
         unat (step_of (syncPhaseAcc (ISR b s))) \<le> 255 \<and>
         OCR1A (ISR b s) \<in> {0, 255}"
proof -
  have lt: "(x < 128) = (unat x \<le> 127)" for x :: u8
    by (simp add: word_less_nat_alt) arith
  have "unat x \<le> 255" for x :: u8
    using unsigned_less [of x, where 'a = nat] by simp
  then show ?thesis
    using assms by (simp add: ISR_OCR1A Let_def wavetable_ids lt)
qed

theorem square_levels_witness:
  "current_wavetable (startup\<lparr>current_wavetable := 3, syncPhaseInc := 65280\<rparr>)
     = WAVETABLE_SQUARE \<and>
   OCR1A (ISR ramp_bank (startup\<lparr>current_wavetable := 3, syncPhaseInc := 65280\<rparr>)) = 0 \<and>
   OCR1A (ISR ramp_bank (ISR ramp_bank
     (startup\<lparr>current_wavetable := 3, syncPhaseInc := 65280\<rparr>))) = 255"
  using square_levels [where b = ramp_bank and
      s = "startup\<lparr>current_wavetable := 3, syncPhaseInc := 65280\<rparr>"]
    square_levels [where b = ramp_bank and
      s = "ISR ramp_bank (startup\<lparr>current_wavetable := 3, syncPhaseInc := 65280\<rparr>)"]
  by (simp add: wavetable_ids ISR_syncPhaseAcc ISR_frame step_of_def startup_defs)

lemma unat_step_of: "unat (step_of a) = unat a div 256"
proof -
  have "unat a < 65536"
    using unsigned_less [of a, where 'a = nat] by simp
  then have "unat a div 256 < 256"
    by arith
  then show ?thesis
    by (simp add: step_of_def unsigned_ucast_eq take_bit_eq_mod drop_bit_eq_div unat_div)
qed

lemma high_byte_mod: "(a mod 65536) div 256 = (a div 256) mod 256" for a :: nat
proof -
  have "a mod 65536 = 256 * (a div 256 mod 256) + a mod 256"
    using mod_mult2_eq [of a 256 256] by simp
  then show ?thesis
    by simp
qed

lemma ISR_funpow_OCR1A_saw:
  assumes "current_wavetable s = WAVETABLE_SAW" and "0 < N"
  shows "OCR1A ((ISR b ^^ N) s) = step_of (syncPhaseAcc ((ISR b ^^ N) s))"
proof -
  obtain n where N: "N = Suc n"
    using assms(2) by (cases N) auto
  have "current_wavetable ((ISR b ^^ n) s) = WAVETABLE_SAW"
    using assms(1) by (simp add: ISR_funpow_frame)
  then show ?thesis
    by (simp add: N ISR_OCR1A Let_def wavetable_ids)
qed

lemma step_of_add_small:
  assumes "unat d \<le> 256"
  shows "step_of (a + d) = step_of a \<or> step_of (a + d) = step_of a + 1"
proof -
  have sum: "unat (step_of (a + d)) = ((unat a + unat d) div 256) mod 256"
    by (simp add: unat_step_of unat_word_ariths high_byte_mod)
  have "unat (step_of a) < 256"
    using unsigned_less [of "step_of a", where 'a = nat] by simp
  then have same: "unat (step_of a) = (unat a div 256) mod 256"
    by (simp add: unat_step_of)
  have next_one: "unat (step_of a + 1) = (unat a div 256 + 1) mod 256"
    by (simp add: unat_word_ariths unat_step_of)
  have "(unat a + unat d) div 256 = unat a div 256 \<or>
        (unat a + unat d) div 256 = unat a div 256 + 1"
    using assms by arith
  then have "unat (step_of (a + d)) = unat (step_of a) \<or>
        unat (step_of (a + d)) = unat (step_of a + 1)"
    unfolding sum same next_one by presburger
  then show ?thesis
    by (simp add: word_unat_eq_iff)
qed

text \<open>
  C6, as stated, fails: with the increment 2 in the audio range the accumulator
  advances by 1 each tick, which is positive, and the first two saw samples are both 0.
\<close>

theorem saw_strict_counterexample:
  "current_wavetable (startup\<lparr>current_wavetable := 2, syncPhaseInc := 2\<rparr>) = WAVETABLE_SAW \<and>
   0 < phase_advance ramp_bank (startup\<lparr>current_wavetable := 2, syncPhaseInc := 2\<rparr>) \<and>
   OCR1A (ISR ramp_bank (startup\<lparr>current_wavetable := 2, syncPhaseInc := 2\<rparr>)) = 0 \<and>
   OCR1A (ISR ramp_bank (ISR ramp_bank
     (startup\<lparr>current_wavetable := 2, syncPhaseInc := 2\<rparr>))) = 0"
  by (simp add: phase_advance_eq ISR_OCR1A ISR_syncPhaseAcc ISR_frame step_of_def Let_def
      wavetable_ids startup_defs)

text \<open>
  C6, amended. When \<open>current_wavetable\<close> selects the saw, the sample written is
  \<open>step\<close>, the high byte of the new accumulator. With a fixed advance \<open>d\<close> per tick
  and the accumulator starting at 0, the sample of tick \<open>N\<close> (from 1 on) is
  \<open>((N * d) mod 65536) div 256\<close>. For \<open>d = 256\<close> this is \<open>N mod 256\<close>: the
  samples 1, 2, ..., 255, 0, ... rise by one per tick. For \<open>d\<close> up to 256 each sample
  is the one before or one more modulo 256, so the ramp never falls before it wraps,
  but it repeats values when \<open>d\<close> is less than 256.
\<close>

theorem saw_ramp:
  assumes "current_wavetable s = WAVETABLE_SAW"
  shows "OCR1A (ISR b s) = step_of (syncPhaseAcc (ISR b s)) \<and>
    (syncPhaseAcc s = 0 \<longrightarrow> 0 < N \<longrightarrow>
       unat (OCR1A ((ISR b ^^ N) s)) = ((N * unat (phase_advance b s)) mod 65536) div 256) \<and>
    (syncPhaseAcc s = 0 \<longrightarrow> phase_advance b s = 256 \<longrightarrow> 0 < N \<longrightarrow>
       unat (OCR1A ((ISR b ^^ N) s)) = N mod 256) \<and>
    (unat (phase_advance b s) \<le> 256 \<longrightarrow>
       OCR1A (ISR b (ISR b s)) = OCR1A (ISR b s) \<or>
       OCR1A (ISR b (ISR b s)) = OCR1A (ISR b s) + 1)"
proof -
  have one: "OCR1A (ISR b s) = step_of (syncPhaseAcc (ISR b s))"
    using ISR_funpow_OCR1A_saw [OF assms, of 1 b] by simp
  have two: "OCR1A (ISR b (ISR b s)) = step_of (syncPhaseAcc (ISR b s) + phase_advance b s)"
    using ISR_funpow_OCR1A_saw [OF assms, of 2 b]
    by (simp add: numeral_2_eq_2 ISR_syncPhaseAcc [of b "ISR b s"] ISR_frame phase_advance_eq)
  have sample: "unat (OCR1A ((ISR b ^^ N) s)) =
      ((N * unat (phase_advance b s)) mod 65536) div 256"
    if "syncPhaseAcc s = 0" and "0 < N"
    using that ISR_funpow_OCR1A_saw [OF assms that(2), of b]
    by (simp add: unat_step_of ISR_funpow_acc unat_of_nat_mult_u16 phase_advance_eq)
  have unit: "unat (OCR1A ((ISR b ^^ N) s)) = N mod 256"
    if "syncPhaseAcc s = 0" and "phase_advance b s = 256" and "0 < N"
    using sample [OF that(1) that(3)] that(2) by (simp add: high_byte_mod)
  have small: "OCR1A (ISR b (ISR b s)) = OCR1A (ISR b s) \<or>
      OCR1A (ISR b (ISR b s)) = OCR1A (ISR b s) + 1"
    if "unat (phase_advance b s) \<le> 256"
    using step_of_add_small [OF that, of "syncPhaseAcc (ISR b s)"] one two by simp
  from one sample unit small show ?thesis
    by blast
qed

theorem saw_ramp_witness:
  "current_wavetable (startup\<lparr>current_wavetable := 2, syncPhaseInc := 512\<rparr>) = WAVETABLE_SAW \<and>
   syncPhaseAcc (startup\<lparr>current_wavetable := 2, syncPhaseInc := 512\<rparr>) = 0 \<and>
   phase_advance ramp_bank (startup\<lparr>current_wavetable := 2, syncPhaseInc := 512\<rparr>) = 256 \<and>
   unat (OCR1A ((ISR ramp_bank ^^ 300)
     (startup\<lparr>current_wavetable := 2, syncPhaseInc := 512\<rparr>))) = 44 \<and>
   OCR1A (ISR ramp_bank (startup\<lparr>current_wavetable := 2, syncPhaseInc := 512\<rparr>)) = 1 \<and>
   OCR1A (ISR ramp_bank (ISR ramp_bank
     (startup\<lparr>current_wavetable := 2, syncPhaseInc := 512\<rparr>))) = 2"
  using saw_ramp [where b = ramp_bank and N = 300 and
      s = "startup\<lparr>current_wavetable := 2, syncPhaseInc := 512\<rparr>"]
  by (simp add: phase_advance_eq ISR_OCR1A ISR_syncPhaseAcc ISR_frame step_of_def Let_def
      wavetable_ids startup_defs)

section \<open>One pass of the control loop\<close>

lemma sum_buffer_0:
  "sum_buffer 0 s =
     s\<lparr>acc_sum := acc_sum s + buffered_vals s ! 0 + buffered_vals s ! 1
       + buffered_vals s ! 2 + buffered_vals s ! 3\<rparr>"
  by (simp add: sum_buffer.simps BUFF_LENGTH_def numeral_3_eq_3 numeral_2_eq_2)

lemma average_buffer_frame:
  "syncPhaseAcc (average_buffer s) = syncPhaseAcc s"
  "baseFreq (average_buffer s) = baseFreq s"
  "phase_offset (average_buffer s) = phase_offset s"
  "buffered_vals (average_buffer s) = buffered_vals s"
  by (simp_all add: average_buffer_def Let_def sum_buffer_0)

lemma store_wave_frame:
  assumes "store_wave m r s = Some s1"
  shows "syncPhaseAcc s1 = syncPhaseAcc s" and "baseFreq s1 = baseFreq s"
    and "phase_offset s1 = phase_offset s" and "current_wavetable s1 = current_wavetable s"
    and "acc_sum s1 = acc_sum s"
  using assms by (auto simp add: store_wave_def split: if_splits)

lemma loop_Some:
  assumes "loop m i s = Some s'"
  obtains s1 where "store_wave m (wave_input i) (read_cv m (cv_input i) s) = Some s1"
    and "s' = read_range (pin0_high i)
           (set_phase_inc (read_finetune (op_input i) (average_buffer s1)))"
  using assms by (auto simp add: loop_def buffer_wave_def split: option.splits)

lemma loop_fields:
  assumes "loop m i s = Some s'"
  shows "syncPhaseAcc s' = syncPhaseAcc s"
    and "phase_offset s' = phase_offset s"
    and "baseFreq s' = mapFreq m (cv_input i)"
    and "finetune s' = - 64 + signed_drop_bit 3 (op_input i)"
    and "syncPhaseInc s' = baseFreq s' + finetune s'"
    and "range_high s' = (if pin0_high i then 1 else 0)"
proof -
  from assms obtain s1
    where s1: "store_wave m (wave_input i) (read_cv m (cv_input i) s) = Some s1"
      and s': "s' = read_range (pin0_high i)
           (set_phase_inc (read_finetune (op_input i) (average_buffer s1)))"
    by (rule loop_Some)
  show "syncPhaseAcc s' = syncPhaseAcc s"
    by (simp add: s' read_range_def set_phase_inc_def read_finetune_def
        average_buffer_frame store_wave_frame [OF s1] read_cv_def)
  show "phase_offset s' = phase_offset s"
    by (simp add: s' read_range_def set_phase_inc_def read_finetune_def
        average_buffer_frame store_wave_frame [OF s1] read_cv_def)
  show "baseFreq s' = mapFreq m (cv_input i)"
    by (simp add: s' read_range_def set_phase_inc_def read_finetune_def
        average_buffer_frame store_wave_frame [OF s1] read_cv_def)
  show "finetune s' = - 64 + signed_drop_bit 3 (op_input i)"
    by (simp add: s' read_range_def set_phase_inc_def read_finetune_def)
  show "syncPhaseInc s' = baseFreq s' + finetune s'"
    by (simp add: s' read_range_def set_phase_inc_def read_finetune_def)
  show "range_high s' = (if pin0_high i then 1 else 0)"
    by (simp add: s' read_range_def)
qed

lemma sint_reading:
  assumes "unat r \<le> 1023"
  shows "sint (r :: u16) = int (unat r)"
proof -
  have "- 32768 \<le> uint r" and "uint r < 32768"
    using assms uint_nat [of r] by linarith+
  then have "signed_take_bit 15 (uint r) = uint r"
    by (intro signed_take_bit_int_eq_self) simp_all
  moreover have "sint r = signed_take_bit 15 (uint r)"
    by (simp only: sint_uint [of r]) simp
  ultimately show ?thesis
    by (simp only: uint_nat)
qed

lemma sint_offset: "- 64 \<le> k \<Longrightarrow> k \<le> 63 \<Longrightarrow> sint (word_of_int k :: u16) = k"
  by (simp only: sint_sbintrunc') (simp add: signed_take_bit_int_eq_self)

lemma mod_wrap: "- 65536 \<le> k \<Longrightarrow> k < 0 \<Longrightarrow> k mod 65536 = k + 65536" for k :: int
proof -
  assume "- 65536 \<le> k" and "k < 0"
  then have "(k + 65536) mod 65536 = k + 65536"
    by (intro mod_pos_pos_trivial) linarith+
  then show ?thesis
    by simp
qed

lemma finetune_value:
  assumes "unat r \<le> 1023"
  shows "- 64 + signed_drop_bit 3 r = (word_of_int (int (unat r div 8) - 64) :: u16)"
proof -
  have "sint (signed_drop_bit 3 r) = int (unat r) div 8"
    by (simp only: sint_signed_drop_bit_eq sint_reading [OF assms] drop_bit_eq_div) simp
  then have "word_of_int (sint (signed_drop_bit 3 r)) = (word_of_int (int (unat r) div 8) :: u16)"
    by (simp only:)
  then have "signed_drop_bit 3 r = (word_of_int (int (unat r div 8)) :: u16)"
    by (simp only: of_int_sint zdiv_int) simp
  then show ?thesis
    by (simp only: wi_hom_syms) simp
qed

text \<open>
  C7. For a fine-tune reading \<open>r\<close> in 0..1023, a pass of the control loop leaves in
  \<open>finetune\<close> the signed value \<open>(r >> 3) - 64\<close>, which is zero exactly when
  \<open>r >> 3\<close> is \<open>512 >> 3\<close>, and publishes
  \<open>syncPhaseInc = (baseFreq + offset) mod 2 ^ 16\<close>, \<open>baseFreq\<close> being the value
  \<open>mapFreq\<close> gave in this pass.
\<close>

theorem finetune_offset:
  assumes "unat (op_input i) \<le> 1023" and "loop m i s = Some s'"
  shows "sint (finetune s') = int (unat (op_input i) div 8) - 64 \<and>
         (finetune s' = 0 \<longleftrightarrow> unat (op_input i) div 8 = 512 div 8) \<and>
         baseFreq s' = mapFreq m (cv_input i) \<and>
         uint (syncPhaseInc s') =
           (uint (baseFreq s') + (int (unat (op_input i) div 8) - 64)) mod 2 ^ 16"
proof -
  let ?k = "int (unat (op_input i) div 8) - 64"
  have ft: "finetune s' = word_of_int ?k"
    by (simp only: loop_fields(4) [OF assms(2)] finetune_value [OF assms(1)])
  have range: "- 64 \<le> ?k" "?k \<le> 63"
    using assms(1) by simp_all
  have sint: "sint (finetune s') = ?k"
    unfolding ft using range by (rule sint_offset)
  have zero: "finetune s' = 0 \<longleftrightarrow> unat (op_input i) div 8 = 512 div 8"
  proof
    assume "finetune s' = 0"
    then have "sint (finetune s') = 0" by simp
    then show "unat (op_input i) div 8 = 512 div 8"
      unfolding sint by simp
  next
    assume "unat (op_input i) div 8 = 512 div 8"
    then show "finetune s' = 0"
      by (simp add: ft)
  qed
  have "syncPhaseInc s' = word_of_int (uint (baseFreq s')) + word_of_int ?k"
    by (simp only: loop_fields(5) [OF assms(2)] ft word_of_int_uint)
  then have "syncPhaseInc s' = word_of_int (uint (baseFreq s') + ?k)"
    by (simp only: wi_hom_syms)
  then have "uint (syncPhaseInc s') = (uint (baseFreq s') + ?k) mod 2 ^ 16"
    by (simp only: uint_word_of_int) simp
  with sint zero loop_fields(3) [OF assms(2)] show ?thesis
    by blast
qed

lemmas loop_defs = loop_def buffer_wave_def store_wave_def average_buffer_def read_cv_def
  read_finetune_def set_phase_inc_def read_range_def plain_mappers_def

theorem finetune_offset_witness:
  "unat (op_input \<lparr>cv_input = 100, wave_input = 0, op_input = 512, pin0_high = False\<rparr>)
     \<le> 1023 \<and>
   loop plain_mappers \<lparr>cv_input = 100, wave_input = 0, op_input = 512, pin0_high = False\<rparr>
     startup \<noteq> None \<and>
   finetune (the (loop plain_mappers
     \<lparr>cv_input = 100, wave_input = 0, op_input = 512, pin0_high = False\<rparr> startup)) = 0 \<and>
   uint (syncPhaseInc (the (loop plain_mappers
     \<lparr>cv_input = 100, wave_input = 0, op_input = 512, pin0_high = False\<rparr> startup))) = 100"
proof -
  let ?i = "\<lparr>cv_input = 100, wave_input = 0, op_input = 512, pin0_high = False\<rparr>"
  have "\<exists>s'. loop plain_mappers ?i startup = Some s'"
    by (simp add: loop_defs startup_defs)
  then obtain s' where s': "loop plain_mappers ?i startup = Some s'"
    by blast
  have "unat (op_input ?i) \<le> 1023"
    by simp
  from finetune_offset [OF this s'] show ?thesis
    unfolding s' by (simp add: plain_mappers_def)
qed

text \<open>
  C10. \<open>finetune\<close> is an unsigned 16-bit variable and the sum is taken modulo
  \<open>2 ^ 16\<close>: in a pass where \<open>baseFreq + (r >> 3)\<close> is below 64, the published
  increment is \<open>65536 - 64 + baseFreq + (r >> 3)\<close>, at least 65472, not zero.
\<close>

theorem finetune_wraps:
  assumes "unat (op_input i) \<le> 1023" and "loop m i s = Some s'"
    and "unat (mapFreq m (cv_input i)) + unat (op_input i) div 8 < 64"
  shows "unat (syncPhaseInc s') =
           65536 - 64 + (unat (mapFreq m (cv_input i)) + unat (op_input i) div 8) \<and>
         65472 \<le> unat (syncPhaseInc s') \<and>
         unat (finetune s') = 65536 - 64 + unat (op_input i) div 8"
proof -
  let ?r = "unat (op_input i) div 8"
  let ?b = "unat (mapFreq m (cv_input i))"
  have ft: "finetune s' = word_of_int (int ?r - 64)"
    by (simp only: loop_fields(4) [OF assms(2)] finetune_value [OF assms(1)])
  have "uint (finetune s') = (int ?r - 64) mod 65536"
    by (simp only: ft uint_word_of_int) simp
  also have "\<dots> = int ?r - 64 + 65536"
    using assms(3) by (intro mod_wrap) linarith+
  finally have f: "unat (finetune s') = 65536 - 64 + ?r"
    using uint_nat [of "finetune s'"] by linarith
  have "syncPhaseInc s' =
      word_of_int (uint (mapFreq m (cv_input i))) + word_of_int (int ?r - 64)"
    by (simp only: loop_fields(5) [OF assms(2)] loop_fields(3) [OF assms(2)] ft
        word_of_int_uint)
  then have "syncPhaseInc s' = word_of_int (uint (mapFreq m (cv_input i)) + (int ?r - 64))"
    by (simp only: wi_hom_syms)
  then have "uint (syncPhaseInc s') =
      (uint (mapFreq m (cv_input i)) + (int ?r - 64)) mod 65536"
    by (simp only: uint_word_of_int) simp
  also have "\<dots> = uint (mapFreq m (cv_input i)) + (int ?r - 64) + 65536"
    using assms(3) uint_nat [of "mapFreq m (cv_input i)"] by (intro mod_wrap) linarith+
  finally have "unat (syncPhaseInc s') = 65536 - 64 + (?b + ?r)"
    using uint_nat [of "syncPhaseInc s'"] uint_nat [of "mapFreq m (cv_input i)"] assms(3)
    by linarith
  with f show ?thesis
    by simp
qed

theorem finetune_wraps_witness:
  "unat (op_input \<lparr>cv_input = 10, wave_input = 0, op_input = 80, pin0_high = False\<rparr>)
     \<le> 1023 \<and>
   unat (mapFreq plain_mappers
       (cv_input \<lparr>cv_input = 10, wave_input = 0, op_input = 80, pin0_high = False\<rparr>)) +
     unat (op_input \<lparr>cv_input = 10, wave_input = 0, op_input = 80, pin0_high = False\<rparr>)
       div 8 < 64 \<and>
   loop plain_mappers \<lparr>cv_input = 10, wave_input = 0, op_input = 80, pin0_high = False\<rparr>
     startup \<noteq> None \<and>
   unat (syncPhaseInc (the (loop plain_mappers
     \<lparr>cv_input = 10, wave_input = 0, op_input = 80, pin0_high = False\<rparr> startup))) = 65492"
proof -
  let ?i = "\<lparr>cv_input = 10, wave_input = 0, op_input = 80, pin0_high = False\<rparr>"
  have "\<exists>s'. loop plain_mappers ?i startup = Some s'"
    by (simp add: loop_defs startup_defs)
  then obtain s' where s': "loop plain_mappers ?i startup = Some s'"
    by blast
  have r: "unat (op_input ?i) \<le> 1023"
    by simp
  have b: "unat (mapFreq plain_mappers (cv_input ?i)) + unat (op_input ?i) div 8 < 64"
    by (simp add: plain_mappers_def)
  from finetune_wraps [OF r s' b] show ?thesis
    unfolding s' by (simp add: plain_mappers_def)
qed

text \<open>
  C8. A pass of the control loop leaves \<open>syncPhaseAcc\<close> as it found it, whatever it
  reads, and so does a pass that changes \<open>range_high\<close>: the accumulator is not reset
  on a change of range. No statement of \<open>loop\<close> assigns \<open>syncPhaseAcc\<close>; the
  interrupt does.
\<close>

theorem loop_keeps_accumulator:
  assumes "loop m i s = Some s'"
  shows "syncPhaseAcc s' = syncPhaseAcc s"
  using assms by (rule loop_fields(1))

theorem loop_keeps_accumulator_witness:
  "range_high (startup\<lparr>syncPhaseAcc := 500\<rparr>) = 0 \<and>
   loop plain_mappers \<lparr>cv_input = 100, wave_input = 0, op_input = 512, pin0_high = True\<rparr>
     (startup\<lparr>syncPhaseAcc := 500\<rparr>) \<noteq> None \<and>
   range_high (the (loop plain_mappers
     \<lparr>cv_input = 100, wave_input = 0, op_input = 512, pin0_high = True\<rparr>
     (startup\<lparr>syncPhaseAcc := 500\<rparr>))) = 1 \<and>
   syncPhaseAcc (the (loop plain_mappers
     \<lparr>cv_input = 100, wave_input = 0, op_input = 512, pin0_high = True\<rparr>
     (startup\<lparr>syncPhaseAcc := 500\<rparr>))) = 500"
proof -
  let ?i = "\<lparr>cv_input = 100, wave_input = 0, op_input = 512, pin0_high = True\<rparr>"
  let ?s = "startup\<lparr>syncPhaseAcc := 500\<rparr>"
  have "\<exists>s'. loop plain_mappers ?i ?s = Some s'"
    by (simp add: loop_defs startup_defs)
  then obtain s' where s': "loop plain_mappers ?i ?s = Some s'"
    by blast
  from loop_keeps_accumulator [OF s'] loop_fields(6) [OF s'] show ?thesis
    unfolding s' by (simp add: startup_defs)
qed

section \<open>Reachable states\<close>

lemma run_loop_append:
  "run_loop m (xs @ ys) s =
     (case run_loop m xs s of None \<Rightarrow> None | Some s1 \<Rightarrow> run_loop m ys s1)"
  by (induction xs arbitrary: s) (auto split: option.splits)

lemma loop_reachable:
  assumes "reachable b m s" and "loop m i s = Some s'"
  shows "reachable b m s'"
proof -
  from assms(2) obtain s1
    where s1: "store_wave m (wave_input i) (read_cv m (cv_input i) s) = Some s1"
      and s': "s' = read_range (pin0_high i)
           (set_phase_inc (read_finetune (op_input i) (average_buffer s1)))"
    by (rule loop_Some)
  have "reachable b m (read_cv m (cv_input i) s)"
    using assms(1) by (rule reachable.cv)
  then have "reachable b m s1"
    using s1 by (rule reachable.store)
  then show ?thesis
    unfolding s' by (intro reachable.range reachable.inc reachable.fine reachable.average)
qed

lemma run_loop_reachable:
  assumes "reachable b m s" and "run_loop m is s = Some s'"
  shows "reachable b m s'"
  using assms
proof (induction "is" arbitrary: s)
  case Nil
  then show ?case by simp
next
  case (Cons i "is")
  from Cons.prems(2) obtain s1 where s1: "loop m i s = Some s1"
    and rest: "run_loop m is s1 = Some s'"
    by (auto split: option.splits)
  from Cons.prems(1) s1 have "reachable b m s1"
    by (rule loop_reachable)
  then show ?case
    using rest by (rule Cons.IH)
qed

lemma reachable_phase_offset:
  assumes "reachable b m s"
  shows "phase_offset s = 0"
  using assms
proof (induction rule: reachable.induct)
  case start
  show ?case by (simp add: startup_defs)
next
  case (tick s)
  then show ?case by (simp add: ISR_frame)
next
  case (cv s r)
  then show ?case by (simp add: read_cv_def)
next
  case (store s r s')
  then show ?case by (simp add: store_wave_frame)
next
  case (average s)
  then show ?case by (simp add: average_buffer_frame)
next
  case (fine s r)
  then show ?case by (simp add: read_finetune_def)
next
  case (inc s)
  then show ?case by (simp add: set_phase_inc_def)
next
  case (range s h)
  then show ?case by (simp add: read_range_def)
qed

text \<open>
  C9. In every reachable state \<open>phase_offset\<close> is 0, the value it starts with: no
  statement assigns it. So \<open>phased_step\<close> is \<open>step\<close>, and the default branch of
  the interrupt reads the noise table at \<open>step\<close>, the index the other waveforms use.
\<close>

theorem phase_offset_stays_zero:
  assumes "reachable b m s"
  shows "phase_offset s = 0 \<and>
         step_of (syncPhaseAcc (ISR b s)) + phase_offset s = step_of (syncPhaseAcc (ISR b s)) \<and>
         (current_wavetable s \<notin>
            {WAVETABLE_SINE, WAVETABLE_TRIANGLE, WAVETABLE_SAW, WAVETABLE_SQUARE,
             WAVETABLE_PULSE} \<longrightarrow>
          OCR1A (ISR b s) = push_bit 1 (noise b (step_of (syncPhaseAcc (ISR b s)))))"
proof -
  have zero: "phase_offset s = 0"
    using assms by (rule reachable_phase_offset)
  then show ?thesis
    by (simp add: ISR_OCR1A Let_def)
qed

theorem phase_offset_stays_zero_witness:
  "run_loop plain_mappers
     (replicate 4 \<lparr>cv_input = 40000, wave_input = 5, op_input = 512, pin0_high = False\<rparr>)
     startup \<noteq> None \<and>
   reachable ramp_bank plain_mappers (the (run_loop plain_mappers
     (replicate 4 \<lparr>cv_input = 40000, wave_input = 5, op_input = 512, pin0_high = False\<rparr>)
     startup)) \<and>
   current_wavetable (the (run_loop plain_mappers
     (replicate 4 \<lparr>cv_input = 40000, wave_input = 5, op_input = 512, pin0_high = False\<rparr>)
     startup)) = 5 \<and>
   phase_offset (the (run_loop plain_mappers
     (replicate 4 \<lparr>cv_input = 40000, wave_input = 5, op_input = 512, pin0_high = False\<rparr>)
     startup)) = 0 \<and>
   OCR1A (ISR ramp_bank (the (run_loop plain_mappers
     (replicate 4 \<lparr>cv_input = 40000, wave_input = 5, op_input = 512, pin0_high = False\<rparr>)
     startup))) = 156"
proof -
  let ?is = "replicate 4
    \<lparr>cv_input = 40000, wave_input = 5, op_input = 512, pin0_high = False\<rparr>"
  have four: "replicate 4 x = [x, x, x, x]" for x :: inputs
    by (simp add: numeral_eq_Suc)
  have "\<exists>s'. run_loop plain_mappers ?is startup = Some s' \<and> current_wavetable s' = 5 \<and>
      syncPhaseAcc s' = 0 \<and> syncPhaseInc s' = 40000 \<and> range_high s' = 0"
    unfolding four by (simp add: loop_defs BUFF_SHIFT_def sum_buffer_0 startup_defs)
  then obtain s' where run: "run_loop plain_mappers ?is startup = Some s'"
    and s': "current_wavetable s' = 5" "syncPhaseAcc s' = 0" "syncPhaseInc s' = 40000"
      "range_high s' = 0"
    by blast
  have "reachable ramp_bank plain_mappers s'"
    using reachable.start run by (rule run_loop_reachable)
  from this phase_offset_stays_zero [OF this] show ?thesis
    unfolding run
    by (simp add: s' wavetable_ids ISR_syncPhaseAcc step_of_def ramp_bank_def)
qed

section \<open>Smoothing of the waveform selector\<close>

lemma loop_store_pass:
  assumes "unat (buff_step s) < 3"
  shows "\<exists>s'. loop m i s = Some s' \<and>
           buff_step s' = buff_step s + 1 \<and>
           buffered_vals s' = (buffered_vals s)[unat (buff_step s) := mapOsc m (wave_input i)] \<and>
           current_wavetable s' = current_wavetable s \<and>
           acc_sum s' = acc_sum s"
proof -
  have "buff_step s + 1 \<noteq> 4"
  proof
    assume "buff_step s + 1 = 4"
    then have "buff_step s = 3"
      by (simp add: eq_diff_eq [symmetric])
    with assms show False
      by simp
  qed
  with assms show ?thesis
    by (simp add: loop_def buffer_wave_def store_wave_def average_buffer_def read_cv_def
        read_finetune_def set_phase_inc_def read_range_def BUFF_LENGTH_def)
qed

lemma loop_average_pass:
  assumes "buff_step s = 3"
  shows "\<exists>s'. loop m i s = Some s' \<and>
           buff_step s' = 0 \<and>
           acc_sum s' = 0 \<and>
           buffered_vals s' = (buffered_vals s)[3 := mapOsc m (wave_input i)] \<and>
           current_wavetable s' =
             ucast (drop_bit 2
               ((buffered_vals s)[3 := mapOsc m (wave_input i)] ! 0 +
                (buffered_vals s)[3 := mapOsc m (wave_input i)] ! 1 +
                (buffered_vals s)[3 := mapOsc m (wave_input i)] ! 2 +
                (buffered_vals s)[3 := mapOsc m (wave_input i)] ! 3) AND 0xff)"
  using assms
  by (simp add: loop_def buffer_wave_def store_wave_def average_buffer_def read_cv_def
      read_finetune_def set_phase_inc_def read_range_def BUFF_LENGTH_def BUFF_SHIFT_def
      sum_buffer_0 Let_def)

lemma average_small:
  fixes a b c d :: u16
  assumes "unat a \<le> 255" and "unat b \<le> 255" and "unat c \<le> 255" and "unat d \<le> 255"
  shows "unat (ucast (drop_bit 2 (a + b + c + d) AND 0xff) :: u8) =
           (unat a + unat b + unat c + unat d) div 4"
proof -
  have sum: "unat (a + b + c + d) = unat a + unat b + unat c + unat d"
    using assms by (simp add: unat_word_ariths)
  have low: "x AND 0xff = take_bit 8 x" for x :: u16
    by (simp add: take_bit_eq_mask mask_eq_exp_minus_1)
  have shift: "unat (drop_bit 2 x) = unat x div 4" for x :: u16
    by (simp add: drop_bit_eq_div unat_div)
  have "unat (drop_bit 2 (a + b + c + d) AND 0xff) =
      ((unat a + unat b + unat c + unat d) div 4) mod 256"
    by (simp only: low unsigned_take_bit_eq shift sum) (simp add: take_bit_eq_mod)
  also have "\<dots> = (unat a + unat b + unat c + unat d) div 4"
    using assms by simp
  finally show ?thesis
    using assms by (simp add: unsigned_ucast_eq take_bit_eq_mod)
qed


lemma block_pass:
  assumes "buff_step s = 0" and "length (buffered_vals s) = 4"
  shows "\<exists>s'. run_loop m [i1, i2, i3, i4] s = Some s' \<and>
           buff_step s' = 0 \<and> acc_sum s' = 0 \<and> length (buffered_vals s') = 4 \<and>
           current_wavetable s' =
             ucast (drop_bit 2
               (mapOsc m (wave_input i1) + mapOsc m (wave_input i2) +
                mapOsc m (wave_input i3) + mapOsc m (wave_input i4)) AND 0xff)"
proof -
  let ?b = "buffered_vals s"
  from assms(1) have "unat (buff_step s) < 3"
    by simp
  from loop_store_pass [OF this, of m i1] assms(1) obtain s1
    where s1: "loop m i1 s = Some s1" "buff_step s1 = 1"
      "buffered_vals s1 = ?b[0 := mapOsc m (wave_input i1)]"
    by auto
  from s1(2) have "unat (buff_step s1) < 3"
    by simp
  from loop_store_pass [OF this, of m i2] s1(2,3) obtain s2
    where s2: "loop m i2 s1 = Some s2" "buff_step s2 = 2"
      "buffered_vals s2 = ?b[0 := mapOsc m (wave_input i1), 1 := mapOsc m (wave_input i2)]"
    by auto
  from s2(2) have "unat (buff_step s2) < 3"
    by simp
  from loop_store_pass [OF this, of m i3] s2(2,3) obtain s3
    where s3: "loop m i3 s2 = Some s3" "buff_step s3 = 3"
      "buffered_vals s3 = ?b[0 := mapOsc m (wave_input i1), 1 := mapOsc m (wave_input i2),
         2 := mapOsc m (wave_input i3)]"
    by auto
  from loop_average_pass [OF s3(2), of m i4] obtain s4
    where s4: "loop m i4 s3 = Some s4" "buff_step s4 = 0" "acc_sum s4 = 0"
      "buffered_vals s4 = (buffered_vals s3)[3 := mapOsc m (wave_input i4)]"
      "current_wavetable s4 =
         ucast (drop_bit 2
           ((buffered_vals s3)[3 := mapOsc m (wave_input i4)] ! 0 +
            (buffered_vals s3)[3 := mapOsc m (wave_input i4)] ! 1 +
            (buffered_vals s3)[3 := mapOsc m (wave_input i4)] ! 2 +
            (buffered_vals s3)[3 := mapOsc m (wave_input i4)] ! 3) AND 0xff)"
    by blast
  have run: "run_loop m [i1, i2, i3, i4] s = Some s4"
    by (simp add: s1(1) s2(1) s3(1) s4(1))
  have len: "length (buffered_vals s4) = 4"
    by (simp add: s4(4) s3(3) assms(2))
  have "current_wavetable s4 =
      ucast (drop_bit 2
        (mapOsc m (wave_input i1) + mapOsc m (wave_input i2) +
         mapOsc m (wave_input i3) + mapOsc m (wave_input i4)) AND 0xff)"
    by (simp add: s4(5) s3(3) assms(2))
  with run len s4(2,3) show ?thesis
    by blast
qed

lemma partial_passes:
  assumes "unat (buff_step s) + length ys < 4"
  shows "\<exists>s'. run_loop m ys s = Some s' \<and>
           unat (buff_step s') = unat (buff_step s) + length ys \<and>
           current_wavetable s' = current_wavetable s \<and>
           acc_sum s' = acc_sum s \<and>
           length (buffered_vals s') = length (buffered_vals s)"
  using assms
proof (induction ys arbitrary: s)
  case Nil
  then show ?case by simp
next
  case (Cons i ys)
  then have small: "unat (buff_step s) < 3"
    by simp
  from loop_store_pass [OF this, of m i] obtain s1
    where s1: "loop m i s = Some s1" "buff_step s1 = buff_step s + 1"
      "buffered_vals s1 = (buffered_vals s)[unat (buff_step s) := mapOsc m (wave_input i)]"
      "current_wavetable s1 = current_wavetable s" "acc_sum s1 = acc_sum s"
    by blast
  have "unat (buff_step s + 1) = (unat (buff_step s) + unat (1 :: u16)) mod 2 ^ LENGTH(16)"
    by (rule unat_word_ariths(1))
  also have "\<dots> = unat (buff_step s) + 1"
    using small by simp
  finally have step: "unat (buff_step s1) = unat (buff_step s) + 1"
    by (simp only: s1(2))
  with Cons.prems have "unat (buff_step s1) + length ys < 4"
    by simp
  from Cons.IH [OF this] obtain s'
    where s': "run_loop m ys s1 = Some s'"
      "unat (buff_step s') = unat (buff_step s1) + length ys"
      "current_wavetable s' = current_wavetable s1" "acc_sum s' = acc_sum s1"
      "length (buffered_vals s') = length (buffered_vals s1)"
    by blast
  show ?case
    by (simp add: s1(1,3,4,5) s' step)
qed

lemma four_elements:
  assumes "length xs = 4"
  obtains a b c d where "xs = [a, b, c, d]"
  using assms by (auto simp add: numeral_eq_Suc length_Suc_conv)

lemma whole_blocks:
  assumes "buff_step s = 0" and "length (buffered_vals s) = 4"
    and "length xs = 4 * q"
    and "\<forall>i\<in>set xs. unat (mapOsc m (wave_input i)) \<le> 255"
  shows "\<exists>s'. run_loop m xs s = Some s' \<and>
           buff_step s' = 0 \<and> length (buffered_vals s') = 4 \<and>
           (q = 0 \<longrightarrow> s' = s) \<and>
           (0 < q \<longrightarrow> acc_sum s' = 0 \<and>
              unat (current_wavetable s') =
                sum_list (map (\<lambda>i. unat (mapOsc m (wave_input i))) (drop (4 * (q - 1)) xs))
                  div 4)"
  using assms(3,4)
proof (induction q arbitrary: xs)
  case 0
  with assms(1,2) show ?case by simp
next
  case (Suc q)
  let ?xs1 = "take (4 * q) xs" and ?xs2 = "drop (4 * q) xs"
  have split: "xs = ?xs1 @ ?xs2"
    by simp
  have len1: "length ?xs1 = 4 * q"
    using Suc.prems(1) by simp
  have small1: "\<forall>i\<in>set ?xs1. unat (mapOsc m (wave_input i)) \<le> 255"
    using Suc.prems(2) by (meson in_set_takeD)
  from Suc.IH [OF len1 small1] obtain s1
    where s1: "run_loop m ?xs1 s = Some s1" "buff_step s1 = 0" "length (buffered_vals s1) = 4"
    by blast
  have "length ?xs2 = 4"
    using Suc.prems(1) by simp
  then obtain i1 i2 i3 i4 where xs2: "?xs2 = [i1, i2, i3, i4]"
    by (rule four_elements)
  have "set ?xs2 \<subseteq> set xs"
    by (rule set_drop_subset)
  with Suc.prems(2) xs2
  have small2: "unat (mapOsc m (wave_input i1)) \<le> 255" "unat (mapOsc m (wave_input i2)) \<le> 255"
    "unat (mapOsc m (wave_input i3)) \<le> 255" "unat (mapOsc m (wave_input i4)) \<le> 255"
    by auto
  from block_pass [OF s1(2,3), of m i1 i2 i3 i4] obtain s'
    where s': "run_loop m [i1, i2, i3, i4] s1 = Some s'" "buff_step s' = 0" "acc_sum s' = 0"
      "length (buffered_vals s') = 4"
      "current_wavetable s' =
         ucast (drop_bit 2
           (mapOsc m (wave_input i1) + mapOsc m (wave_input i2) +
            mapOsc m (wave_input i3) + mapOsc m (wave_input i4)) AND 0xff)"
    by blast
  have "run_loop m (?xs1 @ ?xs2) s = Some s'"
    by (simp only: run_loop_append s1(1) xs2 s'(1) option.case)
  then have run: "run_loop m xs s = Some s'"
    by simp
  have "unat (current_wavetable s') =
      sum_list (map (\<lambda>i. unat (mapOsc m (wave_input i))) ?xs2) div 4"
    by (simp only: s'(5) average_small [OF small2] xs2) simp
  then have "unat (current_wavetable s') =
      sum_list (map (\<lambda>i. unat (mapOsc m (wave_input i))) (drop (4 * (Suc q - 1)) xs)) div 4"
    by simp
  with run s'(2,3,4) show ?case
    by blast
qed

text \<open>
  C4. Take any sequence of passes whose mapped selector readings (the values of
  \<open>mapOsc\<close>) fit in 8 bits, starting with the buffer position at 0 as \<open>audioOn\<close>
  leaves it. After \<open>n\<close> passes the buffer position is \<open>n mod 4\<close>. Before the
  fourth pass \<open>current_wavetable\<close> has the value it started with; from then on it is
  the sum of the mapped readings of the last complete group of four, divided by 4 and
  rounded down, so it changes on every fourth pass only, and \<open>acc_sum\<close> is zero after
  each computation.
\<close>

theorem selector_smoothing:
  assumes "buff_step s = 0" and "length (buffered_vals s) = BUFF_LENGTH"
    and "\<forall>i\<in>set is. unat (mapOsc m (wave_input i)) \<le> 255"
  shows "\<exists>s'. run_loop m is s = Some s' \<and>
           unat (buff_step s') = length is mod 4 \<and>
           (length is < 4 \<longrightarrow> current_wavetable s' = current_wavetable s) \<and>
           (4 \<le> length is \<longrightarrow>
              unat (current_wavetable s') =
                sum_list (map (\<lambda>i. unat (mapOsc m (wave_input i)))
                  (take 4 (drop (4 * (length is div 4 - 1)) is))) div 4 \<and>
              acc_sum s' = 0)"
proof -
  let ?q = "length is div 4"
  let ?xs = "take (4 * ?q) is" and ?ys = "drop (4 * ?q) is"
  have len: "length ?xs = 4 * ?q"
    by simp
  have lenr: "length ?ys = length is mod 4"
    by (simp add: minus_mult_div_eq_mod)
  have small: "\<forall>i\<in>set ?xs. unat (mapOsc m (wave_input i)) \<le> 255"
    using assms(3) by (meson in_set_takeD)
  have four: "length (buffered_vals s) = 4"
    using assms(2) by (simp add: BUFF_LENGTH_def)
  from whole_blocks [OF assms(1) four len small] obtain s1
    where s1: "run_loop m ?xs s = Some s1" "buff_step s1 = 0"
      "?q = 0 \<longrightarrow> s1 = s"
      "0 < ?q \<longrightarrow> acc_sum s1 = 0 \<and>
         unat (current_wavetable s1) =
           sum_list (map (\<lambda>i. unat (mapOsc m (wave_input i))) (drop (4 * (?q - 1)) ?xs))
             div 4"
    by (elim exE conjE) (rule that; assumption)
  have "unat (buff_step s1) + length ?ys < 4"
    by (simp only: s1(2) lenr) simp
  from partial_passes [OF this, of m] obtain s'
    where s': "run_loop m ?ys s1 = Some s'"
      "unat (buff_step s') = unat (buff_step s1) + length ?ys"
      "current_wavetable s' = current_wavetable s1" "acc_sum s' = acc_sum s1"
    by blast
  have "run_loop m (?xs @ ?ys) s = Some s'"
    by (simp only: run_loop_append s1(1) s'(1) option.case)
  then have run: "run_loop m is s = Some s'"
    by simp
  have pos: "unat (buff_step s') = length is mod 4"
    by (simp only: s'(2) s1(2) lenr) simp
  have before: "current_wavetable s' = current_wavetable s" if "length is < 4"
    using that s1(3) by (simp add: s'(3))
  have block: "drop (4 * (?q - 1)) ?xs = take 4 (drop (4 * (?q - 1)) is)" if "4 \<le> length is"
  proof -
    from that have "0 < ?q"
      by (simp add: div_greater_zero_iff)
    then have "4 * ?q - 4 * (?q - 1) = 4"
      by simp
    then show ?thesis
      by (simp add: drop_take)
  qed
  have after: "unat (current_wavetable s') =
        sum_list (map (\<lambda>i. unat (mapOsc m (wave_input i)))
          (take 4 (drop (4 * (?q - 1)) is))) div 4 \<and> acc_sum s' = 0"
    if "4 \<le> length is"
  proof -
    from that have "0 < ?q"
      by (simp add: div_greater_zero_iff)
    with s1(4) show ?thesis
      by (simp only: s'(3,4) block [OF that])
  qed
  from run pos before after show ?thesis
    by blast
qed

theorem selector_smoothing_witness:
  "buff_step startup = 0 \<and> length (buffered_vals startup) = BUFF_LENGTH \<and>
   unat (mapOsc plain_mappers (wave_input (pass_with 3))) \<le> 255 \<and>
   unat (mapOsc plain_mappers (wave_input (pass_with 5))) \<le> 255 \<and>
   unat (mapOsc plain_mappers (wave_input (pass_with 2))) \<le> 255 \<and>
   unat (mapOsc plain_mappers (wave_input (pass_with 4))) \<le> 255 \<and>
   unat (mapOsc plain_mappers (wave_input (pass_with 200))) \<le> 255 \<and>
   run_loop plain_mappers
     [pass_with 3, pass_with 5, pass_with 2, pass_with 4, pass_with 200] startup \<noteq> None \<and>
   unat (current_wavetable (the (run_loop plain_mappers
     [pass_with 3, pass_with 5, pass_with 2, pass_with 4, pass_with 200] startup))) = 3 \<and>
   unat (buff_step (the (run_loop plain_mappers
     [pass_with 3, pass_with 5, pass_with 2, pass_with 4, pass_with 200] startup))) = 1"
proof -
  let ?is = "[pass_with 3, pass_with 5, pass_with 2, pass_with 4, pass_with 200]"
  have start: "buff_step startup = 0" "length (buffered_vals startup) = BUFF_LENGTH"
    by (simp_all add: startup_defs)
  have small: "\<forall>i\<in>set ?is. unat (mapOsc plain_mappers (wave_input i)) \<le> 255"
    by (simp add: plain_mappers_def pass_with_def)
  from selector_smoothing [OF start small] obtain s'
    where s': "run_loop plain_mappers ?is startup = Some s'"
      "unat (buff_step s') = length ?is mod 4"
      "4 \<le> length ?is \<longrightarrow>
         unat (current_wavetable s') =
           sum_list (map (\<lambda>i. unat (mapOsc plain_mappers (wave_input i)))
             (take 4 (drop (4 * (length ?is div 4 - 1)) ?is))) div 4 \<and>
         acc_sum s' = 0"
    by blast
  from s'(2,3) have "unat (buff_step s') = 1" "unat (current_wavetable s') = 3"
    by (simp_all add: plain_mappers_def pass_with_def)
  with start show ?thesis
    unfolding s'(1) by (simp add: plain_mappers_def pass_with_def)
qed

end
